theory Spec2Isabelle
  imports Complex_Main "HOL-Library.Monad_Syntax"
begin

section \<open>Data model of \<open>NotationPlayback\<close>\<close>

text \<open>
  The development embeds \<open>src/notation/internal/notationplayback.cpp\<close>. The class
  \<open>NotationPlayback\<close> works on collaborators whose code is not part of that file: the
  engraving score, its measures and annotations, the playback model and the notifications.
  Each collaborator becomes a record holding exactly what \<open>NotationPlayback\<close> reads or
  writes through it.
\<close>

subsection \<open>Ticks, seconds and results\<close>

text \<open>
  Modelled from the spec: the class \<open>Fraction\<close> of the engraving module is missing. The
  spec measures every position in integer ticks, so a \<open>Fraction\<close> is the integer number
  of ticks it stands for; \<open>Fraction::fromTicks\<close> and \<open>Fraction::ticks\<close> convert without
  loss, and \<open>Fraction(0, 1)\<close> is tick 0.
\<close>

type_synonym Fraction = int


definition ticks :: "Fraction \<Rightarrow> int" where
  "ticks f = f"

text \<open>
  \<open>secs_t\<close> wraps a C++ \<open>double\<close>. The functions embedded here pass seconds to the
  score or return them from it unchanged, or return the constants \<open>0.0\<close> and \<open>1.0\<close>; they
  neither add nor compare seconds. A value of seconds is a real number, and the two
  constants are 0 and 1.
\<close>

type_synonym secs_t = real

type_synonym tick_t = int

text \<open>\<open>RetVal<tick_t>\<close>: \<open>Inl\<close> carries the error of \<open>make_ret\<close>, \<open>Inr\<close> the value of \<open>make_ok\<close>.\<close>

datatype Err = Undefined

type_synonym 'a RetVal = "Err + 'a"


subsection \<open>Engraving objects\<close>

text \<open>
  A pointer is an optional address, \<open>None\<close> being \<open>nullptr\<close>. The objects live in a store
  from addresses to objects, so that an annotation reached through the list of another one's
  links is the same object as the one reached through a segment.
\<close>

type_synonym addr = nat

type_synonym ptr = "addr option"

type_synonym InstrumentTrackId = "nat \<times> string"

text \<open>
  \<open>Factory::createSoundFlag(parent)\<close> gives a new flag of the parent;
  \<open>soundFlag->linkedClone()\<close> gives a clone linked to the flag it was made from.
\<close>

datatype SoundFlag = CreatedSoundFlag addr | LinkedClone SoundFlag

record EngravingObject =
  isStaffText :: bool
  soundFlag :: "SoundFlag option"
  links :: "ptr list option"
  trackId :: InstrumentTrackId
  tick :: Fraction

type_synonym objects = "addr \<Rightarrow> EngravingObject"

text \<open>
  Modelled from the spec: \<open>StaffText::hasSoundFlag\<close>, \<open>StaffText::add\<close> and
  \<open>StaffText::remove\<close> are missing. A staff text owns at most one sound flag:
  \<open>hasSoundFlag\<close> tells whether it owns one, \<open>add\<close> attaches the given flag, \<open>remove\<close>
  detaches the flag, and neither of the two changes anything else.
\<close>

definition hasSoundFlag :: "EngravingObject \<Rightarrow> bool" where
  "hasSoundFlag obj = (soundFlag obj \<noteq> None)"

definition add :: "addr \<Rightarrow> SoundFlag \<Rightarrow> objects \<Rightarrow> objects" where
  "add a sf h = h(a := (h a)\<lparr>soundFlag := Some sf\<rparr>)"

definition remove :: "addr \<Rightarrow> objects \<Rightarrow> objects" where
  "remove a h = h(a := (h a)\<lparr>soundFlag := None\<rparr>)"

subsection \<open>The score\<close>

record Measure =
  endTick :: Fraction

record Segment =
  annotations :: "ptr list"

text \<open>
  What \<open>NotationPlayback\<close> asks of the score. \<open>repeatList_tick2utick e\<close> and
  \<open>repeatList_utick2tick e\<close> are the conversions of \<open>repeatList(e)\<close>, \<open>sigmap_bar2tick\<close> is
  \<open>sigmap()->bar2tick\<close>,
  \<open>tempomap_tempoMultiplier\<close> is \<open>tempomap()->tempoMultiplier().val\<close>,
  \<open>inputStateTicks\<close> is \<open>inputState().ticks()\<close>, and
  \<open>chordRestSegments\<close> is the sequence of segments that \<open>first(ChordRest)\<close> of the first
  measure and \<open>next1(ChordRest)\<close> run through.
\<close>

record Score =
  loopInTick :: Fraction
  loopOutTick :: Fraction
  pos :: Fraction
  inputStateTicks :: Fraction
  firstMeasure :: "Measure option"
  lastMeasure :: "Measure option"
  chordRestSegments :: "Segment list"
  repeatList_tick2utick :: "bool \<Rightarrow> tick_t \<Rightarrow> tick_t"
  repeatList_utick2tick :: "bool \<Rightarrow> tick_t \<Rightarrow> tick_t"
  utick2utime :: "int \<Rightarrow> secs_t"
  utime2utick :: "secs_t \<Rightarrow> int"
  sigmap_bar2tick :: "int \<Rightarrow> int \<Rightarrow> int"
  tempomap_tempoMultiplier :: real

text \<open>
  Modelled from the spec: \<open>Score::setLoopInTick\<close> and \<open>Score::setLoopOutTick\<close> are
  missing. The spec bounds the loop markers: a loop tick is at least 0 and never exceeds the
  score's last tick, the end tick of the last measure. A setter therefore keeps the tick
  it is given within these bounds, \<open>keepInScore\<close>, and stores the result in the score's loop
  marker. What it sends afterwards on the score's channel is modelled with the state of
  \<open>NotationPlayback\<close> below.
\<close>

definition keepInScore :: "Score \<Rightarrow> Fraction \<Rightarrow> Fraction" where
  "keepInScore sc t =
     (case lastMeasure sc of
        None \<Rightarrow> max 0 t
      | Some m \<Rightarrow> min (max 0 t) (endTick m))"



subsection \<open>The state of \<open>NotationPlayback\<close>\<close>

record LoopBoundaries =
  loopInTick :: int
  loopOutTick :: int
  enabled :: bool

record PlaybackModel =
  isPlayRepeatsEnabled :: bool
  reloads :: nat

text \<open>
  \<open>score\<close> is what \<open>m_getScore->score()\<close> returns, \<open>None\<close> when no score is loaded, and
  \<open>objects\<close> the store of engraving objects. A notification is the number of times it has
  fired, and \<open>reloads\<close> counts the calls of \<open>m_playbackModel.reload()\<close>.
\<close>

record NotationPlayback =
  score :: "Score option"
  objects :: objects
  m_playbackModel :: PlaybackModel
  m_loopBoundaries :: LoopBoundaries
  m_notationChanged :: nat
  m_loopBoundariesChanged :: nat

section \<open>Loop boundaries\<close>

text \<open>
  A function of the source that dereferences \<open>score()\<close> or \<open>lastMeasure()\<close> without a
  check returns \<open>None\<close> where the pointer is null; \<open>Some\<close> carries the state it leaves.
\<close>

definition updateLoopBoundaries :: "NotationPlayback \<Rightarrow> NotationPlayback option" where
  "updateLoopBoundaries np = do {
     sc \<leftarrow> score np;
     let newBoundaries = \<lparr>LoopBoundaries.loopInTick = ticks (Score.loopInTick sc),
                          LoopBoundaries.loopOutTick = ticks (Score.loopOutTick sc),
                          enabled = enabled (m_loopBoundaries np)\<rparr>;
     if m_loopBoundaries np \<noteq> newBoundaries
     then Some (np\<lparr>m_loopBoundaries := newBoundaries,
                    m_loopBoundariesChanged := Suc (m_loopBoundariesChanged np)\<rparr>)
     else Some np
   }"

text \<open>
  The constructor subscribes this handler to the score-changed notification
  \<open>m_notationChanged\<close>. \<open>m_notationChanged.notify()\<close> counts the notification and runs the
  handler.
\<close>

definition onNotationChanged :: "NotationPlayback \<Rightarrow> NotationPlayback option" where
  "onNotationChanged np = updateLoopBoundaries np"

definition notify_notationChanged :: "NotationPlayback \<Rightarrow> NotationPlayback option" where
  "notify_notationChanged np =
     onNotationChanged (np\<lparr>m_notationChanged := Suc (m_notationChanged np)\<rparr>)"






definition setLoopBoundariesEnabled :: "bool \<Rightarrow> NotationPlayback \<Rightarrow> NotationPlayback" where
  "setLoopBoundariesEnabled b np =
     (if enabled (m_loopBoundaries np) = b then np
      else np\<lparr>m_loopBoundaries := (m_loopBoundaries np)\<lparr>enabled := b\<rparr>,
              m_loopBoundariesChanged := Suc (m_loopBoundariesChanged np)\<rparr>)"

definition loopBoundaries :: "NotationPlayback \<Rightarrow> LoopBoundaries" where
  "loopBoundaries np = m_loopBoundaries np"





definition boundariesOf :: "Score \<Rightarrow> bool \<Rightarrow> LoopBoundaries" where
  "boundariesOf sc e =
     \<lparr>LoopBoundaries.loopInTick = ticks (Score.loopInTick sc),
      LoopBoundaries.loopOutTick = ticks (Score.loopOutTick sc), enabled = e\<rparr>"


section \<open>Conversions\<close>

definition playedTickToSec :: "tick_t \<Rightarrow> NotationPlayback \<Rightarrow> secs_t" where
  "playedTickToSec t np = (case score np of Some sc \<Rightarrow> utick2utime sc t | None \<Rightarrow> 0)"

definition secToPlayedTick :: "secs_t \<Rightarrow> NotationPlayback \<Rightarrow> tick_t" where
  "secToPlayedTick sec np = (case score np of None \<Rightarrow> 0 | Some sc \<Rightarrow> utime2utick sc sec)"

definition secToTick :: "secs_t \<Rightarrow> NotationPlayback \<Rightarrow> tick_t" where
  "secToTick sec np =
     (case score np of
        None \<Rightarrow> 0
      | Some sc \<Rightarrow>
          let utick = secToPlayedTick sec np
          in repeatList_utick2tick sc (isPlayRepeatsEnabled (m_playbackModel np)) utick)"

definition beatToRawTick :: "int \<Rightarrow> int \<Rightarrow> NotationPlayback \<Rightarrow> tick_t" where
  "beatToRawTick measureIndex beatIndex np =
     (case score np of Some sc \<Rightarrow> sigmap_bar2tick sc measureIndex beatIndex | None \<Rightarrow> 0)"

definition tempoMultiplier :: "NotationPlayback \<Rightarrow> real" where
  "tempoMultiplier np = (case score np of Some sc \<Rightarrow> tempomap_tempoMultiplier sc | None \<Rightarrow> 1)"

definition playPositionTickByRawTick :: "tick_t \<Rightarrow> NotationPlayback \<Rightarrow> tick_t RetVal" where
  "playPositionTickByRawTick t np =
     (case score np of
        None \<Rightarrow> Inl Undefined
      | Some sc \<Rightarrow>
          let playbackTick = repeatList_tick2utick sc (isPlayRepeatsEnabled (m_playbackModel np)) t
          in Inr playbackTick)"

text \<open>
  \<open>IF_ASSERT_FAILED(element)\<close> runs its block when \<open>element\<close> is null. A non-null element
  is read from the store of objects.
\<close>

definition playPositionTickByElement :: "ptr \<Rightarrow> NotationPlayback \<Rightarrow> tick_t RetVal" where
  "playPositionTickByElement element np =
     (case element of
        None \<Rightarrow> Inl Undefined
      | Some a \<Rightarrow>
          (case score np of
             None \<Rightarrow> Inl Undefined
           | Some sc \<Rightarrow> playPositionTickByRawTick (ticks (tick (objects np a))) np))"

section \<open>Sound flags\<close>

text \<open>The loop of \<open>doAddSoundFlag\<close> over \<open>*links\<close>, the staff text itself being skipped.\<close>

fun doAddSoundFlag_links :: "addr \<Rightarrow> SoundFlag \<Rightarrow> ptr list \<Rightarrow> objects \<Rightarrow> objects" where
  "doAddSoundFlag_links staffText sf [] h = h"
| "doAddSoundFlag_links staffText sf (obj # objs) h =
     doAddSoundFlag_links staffText sf objs
       (case obj of
          None \<Rightarrow> h
        | Some a \<Rightarrow>
            if isStaffText (h a) \<and> a \<noteq> staffText then add a (LinkedClone sf) h else h)"

fun doAddSoundFlag :: "ptr \<Rightarrow> objects \<Rightarrow> bool \<times> objects" where
  "doAddSoundFlag None h = (False, h)"
| "doAddSoundFlag (Some staffText) h =
     (if hasSoundFlag (h staffText) then (False, h)
      else
        let sf = CreatedSoundFlag staffText;
            h1 = add staffText sf h
        in (case links (h1 staffText) of
              None \<Rightarrow> (True, h1)
            | Some ls \<Rightarrow> (True, doAddSoundFlag_links staffText sf ls h1)))"

text \<open>The loop of \<open>addSoundFlags\<close> over the list, with the flag \<open>added\<close>.\<close>

fun addSoundFlags_loop :: "ptr list \<Rightarrow> bool \<Rightarrow> objects \<Rightarrow> bool \<times> objects" where
  "addSoundFlags_loop [] added h = (added, h)"
| "addSoundFlags_loop (staffText # rest) added h =
     (case doAddSoundFlag staffText h of
        (r, h') \<Rightarrow> addSoundFlags_loop rest (added \<or> r) h')"

text \<open>\<open>score()->update()\<close> dereferences the score; it changes nothing that is modelled.\<close>

definition addSoundFlags :: "ptr list \<Rightarrow> NotationPlayback \<Rightarrow> NotationPlayback option" where
  "addSoundFlags staffTextList np =
     (if staffTextList = [] then Some np
      else
        (case addSoundFlags_loop staffTextList False (objects np) of
           (added, h') \<Rightarrow>
             if added
             then do {
               sc \<leftarrow> score np;
               notify_notationChanged (np\<lparr>objects := h'\<rparr>)
             }
             else Some (np\<lparr>objects := h'\<rparr>)))"

text \<open>
  \<open>collectStaffText\<close>: the annotations of one segment, then of all segments in order. The
  staff texts it returns are non-null, so they are addresses.
  \<open>makeInstrumentTrackId(annotation)\<close> is the field \<open>trackId\<close> of the annotation.
\<close>

fun collectStaffText_annotations ::
  "InstrumentTrackId set \<Rightarrow> bool \<Rightarrow> objects \<Rightarrow> ptr list \<Rightarrow> addr list" where
  "collectStaffText_annotations trackIdSet withSoundFlags h [] = []"
| "collectStaffText_annotations trackIdSet withSoundFlags h (None # rest) =
     collectStaffText_annotations trackIdSet withSoundFlags h rest"
| "collectStaffText_annotations trackIdSet withSoundFlags h (Some annotation # rest) =
     (if \<not> isStaffText (h annotation)
      then collectStaffText_annotations trackIdSet withSoundFlags h rest
      else if withSoundFlags \<and> \<not> hasSoundFlag (h annotation)
      then collectStaffText_annotations trackIdSet withSoundFlags h rest
      else if \<not> withSoundFlags \<and> hasSoundFlag (h annotation)
      then collectStaffText_annotations trackIdSet withSoundFlags h rest
      else if trackId (h annotation) \<in> trackIdSet
      then annotation # collectStaffText_annotations trackIdSet withSoundFlags h rest
      else collectStaffText_annotations trackIdSet withSoundFlags h rest)"

fun collectStaffText_segments ::
  "InstrumentTrackId set \<Rightarrow> bool \<Rightarrow> objects \<Rightarrow> Segment list \<Rightarrow> addr list" where
  "collectStaffText_segments trackIdSet withSoundFlags h [] = []"
| "collectStaffText_segments trackIdSet withSoundFlags h (seg # segs) =
     collectStaffText_annotations trackIdSet withSoundFlags h (annotations seg)
       @ collectStaffText_segments trackIdSet withSoundFlags h segs"

definition collectStaffText ::
  "InstrumentTrackId set \<Rightarrow> bool \<Rightarrow> NotationPlayback \<Rightarrow> addr list" where
  "collectStaffText trackIdSet withSoundFlags np =
     (if trackIdSet = {} then []
      else
        (case score np of
           None \<Rightarrow> []
         | Some sc \<Rightarrow>
             (case firstMeasure sc of
                None \<Rightarrow> []
              | Some fm \<Rightarrow>
                  collectStaffText_segments trackIdSet withSoundFlags (objects np)
                    (chordRestSegments sc))))"

text \<open>The loop of \<open>removeSoundFlags\<close> over \<open>*links\<close>, then the loop over the list.\<close>

fun removeSoundFlags_links :: "addr \<Rightarrow> ptr list \<Rightarrow> objects \<Rightarrow> objects" where
  "removeSoundFlags_links staffText [] h = h"
| "removeSoundFlags_links staffText (obj # objs) h =
     removeSoundFlags_links staffText objs
       (case obj of
          None \<Rightarrow> h
        | Some a \<Rightarrow>
            if isStaffText (h a) \<and> a \<noteq> staffText
            then (if \<not> hasSoundFlag (h a) then h else remove a h)
            else h)"

fun removeSoundFlags_loop :: "addr list \<Rightarrow> objects \<Rightarrow> objects" where
  "removeSoundFlags_loop [] h = h"
| "removeSoundFlags_loop (staffText # rest) h =
     removeSoundFlags_loop rest
       (if \<not> hasSoundFlag (h staffText) then h
        else
          let h1 = remove staffText h
          in (case links (h1 staffText) of
                None \<Rightarrow> h1
              | Some ls \<Rightarrow> removeSoundFlags_links staffText ls h1))"

text \<open>
  Modelled from the spec: \<open>PlaybackModel::reload\<close> is missing. The spec speaks of a reload
  of the playback data and of nothing it changes in \<open>NotationPlayback\<close>, so a call is
  counted.
\<close>

definition reload :: "PlaybackModel \<Rightarrow> PlaybackModel" where
  "reload pm = pm\<lparr>reloads := Suc (reloads pm)\<rparr>"

definition removeSoundFlags ::
  "InstrumentTrackId set \<Rightarrow> NotationPlayback \<Rightarrow> NotationPlayback option" where
  "removeSoundFlags trackIdSet np =
     (let staffTextList = collectStaffText trackIdSet True np
      in if staffTextList = [] then Some np
         else do {
           sc \<leftarrow> score np;
           notify_notationChanged
             (np\<lparr>objects := removeSoundFlags_loop staffTextList (objects np),
                 m_playbackModel := reload (m_playbackModel np)\<rparr>)
         })"


text \<open>
  What the claims on sound flags speak about. \<open>flaggedWithLinks h a\<close>: the staff text \<open>a\<close>
  and every staff text among its links have a sound flag. \<open>linksShared h a\<close>: the list
  \<open>LinkedObjects\<close> of \<open>a\<close> is shared, each staff text in it has that same list as its links.
\<close>

definition flaggedWithLinks :: "objects \<Rightarrow> addr \<Rightarrow> bool" where
  "flaggedWithLinks h a =
     (hasSoundFlag (h a) \<and>
      (case links (h a) of
         None \<Rightarrow> True
       | Some ls \<Rightarrow>
           list_all (\<lambda>obj. case obj of None \<Rightarrow> True
                           | Some l \<Rightarrow> isStaffText (h l) \<longrightarrow> hasSoundFlag (h l)) ls))"

definition linksShared :: "objects \<Rightarrow> addr \<Rightarrow> bool" where
  "linksShared h a =
     (case links (h a) of
        None \<Rightarrow> True
      | Some ls \<Rightarrow>
          list_all (\<lambda>obj. case obj of None \<Rightarrow> True
                          | Some l \<Rightarrow> isStaffText (h l) \<longrightarrow> links (h l) = Some ls) ls)"

definition lacksSoundFlag :: "objects \<Rightarrow> ptr \<Rightarrow> bool" where
  "lacksSoundFlag h p = (case p of None \<Rightarrow> False | Some a \<Rightarrow> \<not> hasSoundFlag (h a))"

section \<open>Example states\<close>


definition ex_score :: Score where
  "ex_score =
     \<lparr>Score.loopInTick = 0, Score.loopOutTick = 1000, pos = 480, inputStateTicks = 480,
      firstMeasure = Some \<lparr>endTick = 1920\<rparr>, lastMeasure = Some \<lparr>endTick = 2000\<rparr>,
      chordRestSegments = [\<lparr>annotations = [Some 1, None]\<rparr>, \<lparr>annotations = [Some 2, Some 3]\<rparr>],
      repeatList_tick2utick = (\<lambda>e t. if e then t + 2000 else t),
      repeatList_utick2tick = (\<lambda>e u. if e then u mod 2000 else u),
      utick2utime = (\<lambda>u. real_of_int u / 960),
      utime2utick = (\<lambda>s. \<lfloor>s * 960\<rfloor>),
      sigmap_bar2tick = (\<lambda>m b. m * 1920 + b * 480),
      tempomap_tempoMultiplier = 1\<rparr>"

definition ex_objects :: objects where
  "ex_objects =
     (\<lambda>a. \<lparr>isStaffText = (a \<noteq> 0), soundFlag = None,
            links = (if a = 1 \<or> a = 2 then Some [Some 1, Some 2] else None),
            trackId = (a div 3, ''violin''), tick = 480 * int a\<rparr>)"

definition ex_np :: NotationPlayback where
  "ex_np =
     \<lparr>score = Some ex_score, objects = ex_objects,
      m_playbackModel = \<lparr>isPlayRepeatsEnabled = True, reloads = 0\<rparr>,
      m_loopBoundaries =
        \<lparr>LoopBoundaries.loopInTick = 0, LoopBoundaries.loopOutTick = 1000, enabled = False\<rparr>,
      m_notationChanged = 0, m_loopBoundariesChanged = 0\<rparr>"


text \<open>The same state once the staff texts 1 and 2 carry a sound flag.\<close>

definition ex_np_flagged :: NotationPlayback where
  "ex_np_flagged =
     ex_np\<lparr>objects := add 2 (LinkedClone (CreatedSoundFlag 1))
                         (add 1 (CreatedSoundFlag 1) ex_objects)\<rparr>"

section \<open>Properties of the loop boundaries\<close>

subsection \<open>The setters and the handler\<close>

lemma updateLoopBoundaries_result:
  assumes "score np = Some sc"
  shows "\<exists>np'. updateLoopBoundaries np = Some np'
           \<and> score np' = Some sc
           \<and> m_loopBoundaries np' = boundariesOf sc (enabled (m_loopBoundaries np))
           \<and> objects np' = objects np \<and> m_playbackModel np' = m_playbackModel np
           \<and> m_notationChanged np' = m_notationChanged np
           \<and> m_loopBoundariesChanged np \<le> m_loopBoundariesChanged np'
           \<and> m_loopBoundariesChanged np' \<le> Suc (m_loopBoundariesChanged np)"
  using assms by (simp add: updateLoopBoundaries_def boundariesOf_def Let_def)



lemma keepInScore_endTick:
  assumes "lastMeasure sc = Some m"
  shows "keepInScore sc (endTick m) = endTick m"
  using assms by (simp add: keepInScore_def)





subsection \<open>Sequences of \<open>addLoopIn\<close> and \<open>addLoopOut\<close>\<close>









subsection \<open>Single calls\<close>








subsection \<open>The enabled flag and the re-derivation\<close>

text \<open>
  C6. If the enabled flag already is \<open>b\<close>, \<open>setLoopBoundariesEnabled b\<close> leaves the whole
  state as it is, the boundaries and the count of loop-boundaries-changed notifications
  included. Two calls in a row with the same \<open>b\<close> leave the state of the first call and fire
  the notification at most once.
\<close>

theorem setLoopBoundariesEnabled_delta:
  "(enabled (m_loopBoundaries np) = b \<longrightarrow> setLoopBoundariesEnabled b np = np)
   \<and> setLoopBoundariesEnabled b (setLoopBoundariesEnabled b np) = setLoopBoundariesEnabled b np
   \<and> m_loopBoundariesChanged (setLoopBoundariesEnabled b (setLoopBoundariesEnabled b np))
       \<le> Suc (m_loopBoundariesChanged np)"
  by (simp add: setLoopBoundariesEnabled_def)

theorem setLoopBoundariesEnabled_delta_witness:
  "enabled (m_loopBoundaries ex_np) = False
   \<and> setLoopBoundariesEnabled False ex_np = ex_np
   \<and> m_loopBoundariesChanged (setLoopBoundariesEnabled True (setLoopBoundariesEnabled True ex_np))
       \<le> Suc (m_loopBoundariesChanged ex_np)"
proof -
  have a: "enabled (m_loopBoundaries ex_np) = False" by (simp add: ex_np_def)
  note b = setLoopBoundariesEnabled_delta [of ex_np False, THEN conjunct1, rule_format, OF a]
  note c = setLoopBoundariesEnabled_delta [of ex_np True, THEN conjunct2, THEN conjunct2]
  show ?thesis by (intro conjI a b c)
qed

text \<open>
  C9. On a score-changed notification with a score loaded, the handler sets the loop-in and
  loop-out ticks of the boundaries to the ticks of the score's loop markers and keeps the
  enabled flag; the loop-boundaries-changed notification fires once if the boundaries
  differ from the previous ones and not at all if they are the same. Nothing else changes.
\<close>

theorem onNotationChanged_rederives:
  assumes "score np = Some sc"
  shows "\<exists>np'. onNotationChanged np = Some np'
           \<and> m_loopBoundaries np' =
               \<lparr>LoopBoundaries.loopInTick = ticks (Score.loopInTick sc),
                LoopBoundaries.loopOutTick = ticks (Score.loopOutTick sc),
                enabled = enabled (m_loopBoundaries np)\<rparr>
           \<and> m_loopBoundariesChanged np' =
               (if m_loopBoundaries np' \<noteq> m_loopBoundaries np
                then Suc (m_loopBoundariesChanged np) else m_loopBoundariesChanged np)
           \<and> np' = np\<lparr>m_loopBoundaries := m_loopBoundaries np',
                       m_loopBoundariesChanged := m_loopBoundariesChanged np'\<rparr>"
  using assms
  by (auto simp add: onNotationChanged_def updateLoopBoundaries_def Let_def)

theorem onNotationChanged_rederives_witness:
  "score (ex_np\<lparr>score := Some (ex_score\<lparr>Score.loopInTick := 1500,
                                          Score.loopOutTick := 2000\<rparr>)\<rparr>)
     = Some (ex_score\<lparr>Score.loopInTick := 1500, Score.loopOutTick := 2000\<rparr>)
   \<and> (\<exists>np'. onNotationChanged
               (ex_np\<lparr>score := Some (ex_score\<lparr>Score.loopInTick := 1500,
                                               Score.loopOutTick := 2000\<rparr>)\<rparr>) = Some np'
         \<and> m_loopBoundaries np' =
             \<lparr>LoopBoundaries.loopInTick = 1500, LoopBoundaries.loopOutTick = 2000,
              enabled = False\<rparr>
         \<and> m_loopBoundariesChanged np' = 1)"
proof -
  let ?sc = "ex_score\<lparr>Score.loopInTick := 1500, Score.loopOutTick := 2000\<rparr>"
  let ?np = "ex_np\<lparr>score := Some ?sc\<rparr>"
  have a: "score ?np = Some ?sc" by simp
  have b: "m_loopBoundaries ?np =
             \<lparr>LoopBoundaries.loopInTick = 0, LoopBoundaries.loopOutTick = 1000, enabled = False\<rparr>"
    "m_loopBoundariesChanged ?np = 0"
    "ticks (Score.loopInTick ?sc) = 1500" "ticks (Score.loopOutTick ?sc) = 2000"
    by (simp_all add: ex_np_def ticks_def)
  from onNotationChanged_rederives [OF a] obtain np' where
    "onNotationChanged ?np = Some np'"
    "m_loopBoundaries np' =
       \<lparr>LoopBoundaries.loopInTick = ticks (Score.loopInTick ?sc),
        LoopBoundaries.loopOutTick = ticks (Score.loopOutTick ?sc),
        enabled = enabled (m_loopBoundaries ?np)\<rparr>"
    "m_loopBoundariesChanged np' =
       (if m_loopBoundaries np' \<noteq> m_loopBoundaries ?np
        then Suc (m_loopBoundariesChanged ?np) else m_loopBoundariesChanged ?np)"
    by blast
  with b have "onNotationChanged ?np = Some np'
         \<and> m_loopBoundaries np' =
             \<lparr>LoopBoundaries.loopInTick = 1500, LoopBoundaries.loopOutTick = 2000,
              enabled = False\<rparr>
         \<and> m_loopBoundariesChanged np' = 1"
    by simp
  with a show ?thesis by blast
qed

section \<open>Properties of the conversions\<close>

text \<open>
  C7. \<open>playPositionTickByRawTick\<close> gives the error \<open>Undefined\<close> when no score is loaded and
  otherwise the tick that \<open>tick2utick\<close> of the repeat list gives under the current
  play-repeats setting. \<open>playPositionTickByElement\<close> gives the error \<open>Undefined\<close> when the
  element is null or no score is loaded, and otherwise what \<open>playPositionTickByRawTick\<close>
  gives for the tick of the element.
\<close>

theorem playPosition_results:
  "(score np = None \<longrightarrow> playPositionTickByRawTick t np = Inl Undefined)
   \<and> (\<forall>sc. score np = Some sc \<longrightarrow>
        playPositionTickByRawTick t np
          = Inr (repeatList_tick2utick sc (isPlayRepeatsEnabled (m_playbackModel np)) t))
   \<and> (element = None \<or> score np = None \<longrightarrow> playPositionTickByElement element np = Inl Undefined)
   \<and> (\<forall>a sc. element = Some a \<and> score np = Some sc \<longrightarrow>
        playPositionTickByElement element np
          = playPositionTickByRawTick (ticks (tick (objects np a))) np)"
  by (auto simp add: playPositionTickByRawTick_def playPositionTickByElement_def
      split: option.splits)

theorem playPosition_results_witness:
  "score (ex_np\<lparr>score := None\<rparr>) = None
   \<and> playPositionTickByRawTick 480 (ex_np\<lparr>score := None\<rparr>) = Inl Undefined
   \<and> playPositionTickByElement (Some 1) (ex_np\<lparr>score := None\<rparr>) = Inl Undefined
   \<and> score ex_np = Some ex_score
   \<and> playPositionTickByRawTick 480 ex_np = Inr 2480
   \<and> playPositionTickByElement None ex_np = Inl Undefined
   \<and> playPositionTickByElement (Some 1) ex_np = Inr 2480"
proof -
  have a: "score (ex_np\<lparr>score := None\<rparr>) = None" by simp
  have b: "score ex_np = Some ex_score" by (simp add: ex_np_def)
  have c: "repeatList_tick2utick ex_score (isPlayRepeatsEnabled (m_playbackModel ex_np)) 480 = 2480"
    "ticks (tick (objects ex_np 1)) = 480"
    by (simp_all add: ex_np_def ex_score_def ex_objects_def ticks_def)
  from playPosition_results [of "ex_np\<lparr>score := None\<rparr>" 480 "Some 1"]
    playPosition_results [of ex_np 480 None]
    playPosition_results [of ex_np 480 "Some 1"] a b c
  show ?thesis by simp
qed

text \<open>
  C10. With no score loaded the conversions give fixed values: \<open>playedTickToSec\<close> gives 0
  seconds for every tick, \<open>secToPlayedTick\<close> and \<open>secToTick\<close> give tick 0 for every time,
  \<open>beatToRawTick\<close> gives tick 0 for every measure and beat, and \<open>tempoMultiplier\<close> gives 1.
\<close>

theorem no_score_defaults:
  assumes "score np = None"
  shows "playedTickToSec t np = 0 \<and> secToPlayedTick sec np = 0 \<and> secToTick sec np = 0
         \<and> beatToRawTick measureIndex beatIndex np = 0 \<and> tempoMultiplier np = 1"
  using assms
  by (simp add: playedTickToSec_def secToPlayedTick_def secToTick_def beatToRawTick_def
      tempoMultiplier_def)

theorem no_score_defaults_witness:
  "score (ex_np\<lparr>score := None\<rparr>) = None
   \<and> playedTickToSec 960 (ex_np\<lparr>score := None\<rparr>) = 0
   \<and> secToPlayedTick 2 (ex_np\<lparr>score := None\<rparr>) = 0
   \<and> secToTick 2 (ex_np\<lparr>score := None\<rparr>) = 0
   \<and> beatToRawTick 1 2 (ex_np\<lparr>score := None\<rparr>) = 0
   \<and> tempoMultiplier (ex_np\<lparr>score := None\<rparr>) = 1"
proof -
  have a: "score (ex_np\<lparr>score := None\<rparr>) = None" by simp
  from no_score_defaults [OF a, of 960 2 1 2] a show ?thesis by simp
qed

section \<open>Properties of the sound flags\<close>

subsection \<open>Adding\<close>

lemma notify_notationChanged_result:
  assumes "score np = Some sc"
  shows "\<exists>np'. notify_notationChanged np = Some np'
           \<and> score np' = Some sc \<and> objects np' = objects np
           \<and> m_playbackModel np' = m_playbackModel np
           \<and> m_notationChanged np' = Suc (m_notationChanged np)"
proof -
  let ?np1 = "np\<lparr>m_notationChanged := Suc (m_notationChanged np)\<rparr>"
  have "score ?np1 = Some sc" using assms by simp
  from updateLoopBoundaries_result [OF this] obtain np' where
    "updateLoopBoundaries ?np1 = Some np'" "score np' = Some sc" "objects np' = objects ?np1"
    "m_playbackModel np' = m_playbackModel ?np1" "m_notationChanged np' = m_notationChanged ?np1"
    by blast
  then show ?thesis
    by (simp add: notify_notationChanged_def onNotationChanged_def)
qed

text \<open>
  What one call of \<open>doAddSoundFlag\<close> leaves in the store: the staff text gets a created flag,
  every other staff text among its links gets a linked clone of it, and nothing else changes.
\<close>

lemma doAddSoundFlag_links_obj:
  "doAddSoundFlag_links s sf ls h x =
     (if x \<noteq> s \<and> Some x \<in> set ls \<and> isStaffText (h x)
      then (h x)\<lparr>soundFlag := Some (LinkedClone sf)\<rparr> else h x)"
proof (induction ls arbitrary: h)
  case Nil
  then show ?case by simp
next
  case (Cons obj objs)
  show ?case
  proof (cases obj)
    case None
    then show ?thesis by (simp add: Cons.IH)
  next
    case (Some a)
    then show ?thesis by (auto simp add: Cons.IH add_def)
  qed
qed

lemma doAddSoundFlag_obj:
  "doAddSoundFlag (Some s) h =
     (if hasSoundFlag (h s) then (False, h)
      else (True, \<lambda>x. if x = s then (h s)\<lparr>soundFlag := Some (CreatedSoundFlag s)\<rparr>
                      else if (\<exists>ls. links (h s) = Some ls \<and> Some x \<in> set ls) \<and> isStaffText (h x)
                      then (h x)\<lparr>soundFlag := Some (LinkedClone (CreatedSoundFlag s))\<rparr>
                      else h x))"
proof (cases "hasSoundFlag (h s)")
  case True
  then show ?thesis by simp
next
  case False
  show ?thesis
  proof (cases "links (h s)")
    case None
    with False show ?thesis by (auto simp add: add_def Let_def)
  next
    case (Some ls)
    with False show ?thesis
      by (auto simp add: add_def Let_def doAddSoundFlag_links_obj fun_eq_iff)
  qed
qed


lemma doAddSoundFlag_shape:
  assumes "doAddSoundFlag p h = (r, h')"
  shows "isStaffText (h' x) = isStaffText (h x) \<and> links (h' x) = links (h x)"
  using assms by (cases p) (auto simp add: doAddSoundFlag_obj simp del: doAddSoundFlag.simps(2) split: if_splits)

lemma doAddSoundFlag_keeps_flags:
  assumes "doAddSoundFlag p h = (r, h')" and "hasSoundFlag (h x)"
  shows "hasSoundFlag (h' x)"
  using assms by (cases p) (auto simp add: doAddSoundFlag_obj hasSoundFlag_def simp del: doAddSoundFlag.simps(2) split: if_splits)

lemma doAddSoundFlag_added:
  assumes "doAddSoundFlag p h = (r, h')"
  shows "r = lacksSoundFlag h p"
  using assms by (cases p) (auto simp add: doAddSoundFlag_obj lacksSoundFlag_def simp del: doAddSoundFlag.simps(2) split: if_splits)

lemma doAddSoundFlag_flags_listed:
  assumes "doAddSoundFlag (Some s) h = (r, h')"
  shows "hasSoundFlag (h' s)"
  using assms by (auto simp add: doAddSoundFlag_obj hasSoundFlag_def simp del: doAddSoundFlag.simps(2) split: if_splits)

lemma doAddSoundFlag_new_flag:
  assumes "doAddSoundFlag p h = (r, h')" and "hasSoundFlag (h' x)" and "\<not> hasSoundFlag (h x)"
  shows "\<exists>s. p = Some s \<and> \<not> hasSoundFlag (h s)
           \<and> (x = s \<or> (\<exists>ls. links (h s) = Some ls \<and> Some x \<in> set ls \<and> isStaffText (h x)))"
  using assms by (cases p) (auto simp add: doAddSoundFlag_obj simp del: doAddSoundFlag.simps(2) split: if_splits)

lemma doAddSoundFlag_flags_links:
  assumes "doAddSoundFlag (Some s) h = (r, h')" and "\<not> hasSoundFlag (h s)"
    and "links (h s) = Some ls" and "Some l \<in> set ls" and "isStaffText (h l)"
  shows "hasSoundFlag (h' l)"
  using assms by (auto simp add: doAddSoundFlag_obj hasSoundFlag_def simp del: doAddSoundFlag.simps(2) split: if_splits)

lemma flaggedWithLinks_iff:
  "flaggedWithLinks h a \<longleftrightarrow>
     hasSoundFlag (h a) \<and>
     (\<forall>ls l. links (h a) = Some ls \<longrightarrow> Some l \<in> set ls \<longrightarrow> isStaffText (h l) \<longrightarrow> hasSoundFlag (h l))"
  by (auto simp add: flaggedWithLinks_def list_all_iff split: option.splits)

lemma linksShared_iff:
  "linksShared h a \<longleftrightarrow>
     (\<forall>ls l. links (h a) = Some ls \<longrightarrow> Some l \<in> set ls \<longrightarrow> isStaffText (h l) \<longrightarrow> links (h l) = Some ls)"
  by (auto simp add: linksShared_def list_all_iff split: option.splits)

lemma doAddSoundFlag_new_flag_links:
  assumes run: "doAddSoundFlag p h = (r, h')" and new: "hasSoundFlag (h' x)" "\<not> hasSoundFlag (h x)"
    and shared: "\<forall>b. p = Some b \<longrightarrow> linksShared h b"
  shows "flaggedWithLinks h' x"
proof -
  from doAddSoundFlag_new_flag [OF run new] obtain s where
    p: "p = Some s" and s: "\<not> hasSoundFlag (h s)"
    and x: "x = s \<or> (\<exists>ls. links (h s) = Some ls \<and> Some x \<in> set ls \<and> isStaffText (h x))"
    by blast
  from run p have run': "doAddSoundFlag (Some s) h = (r, h')" by simp
  have shape: "\<And>y. isStaffText (h' y) = isStaffText (h y) \<and> links (h' y) = links (h y)"
    using doAddSoundFlag_shape [OF run] .
  have group: "\<And>ls l. links (h s) = Some ls \<Longrightarrow> Some l \<in> set ls \<Longrightarrow> isStaffText (h l)
                 \<Longrightarrow> hasSoundFlag (h' l)"
    using doAddSoundFlag_flags_links [OF run' s] by blast
  from x show ?thesis
  proof
    assume "x = s"
    with new(1) group shape show ?thesis by (simp add: flaggedWithLinks_iff)
  next
    assume "\<exists>ls. links (h s) = Some ls \<and> Some x \<in> set ls \<and> isStaffText (h x)"
    then obtain ls where ls: "links (h s) = Some ls" "Some x \<in> set ls" "isStaffText (h x)"
      by blast
    from shared p have "linksShared h s" by simp
    with ls have "links (h x) = Some ls" by (simp add: linksShared_iff)
    with new(1) group [OF ls(1)] shape show ?thesis by (simp add: flaggedWithLinks_iff)
  qed
qed


lemma flaggedWithLinks_mono:
  assumes "flaggedWithLinks h x"
    and "\<And>y. isStaffText (h' y) = isStaffText (h y) \<and> links (h' y) = links (h y)"
    and "\<And>y. hasSoundFlag (h y) \<Longrightarrow> hasSoundFlag (h' y)"
  shows "flaggedWithLinks h' x"
  using assms by (simp add: flaggedWithLinks_iff)

lemma lacksSoundFlag_step:
  assumes step: "doAddSoundFlag p h = (r1, h1)"
  shows "(r1 \<or> (\<exists>q \<in> set rest. lacksSoundFlag h1 q))
           \<longleftrightarrow> (\<exists>q \<in> set (p # rest). lacksSoundFlag h q)"
proof
  assume "r1 \<or> (\<exists>q \<in> set rest. lacksSoundFlag h1 q)"
  then show "\<exists>q \<in> set (p # rest). lacksSoundFlag h q"
  proof
    assume r1
    then have "lacksSoundFlag h p" using doAddSoundFlag_added [OF step] by simp
    then show ?thesis by simp
  next
    assume "\<exists>q \<in> set rest. lacksSoundFlag h1 q"
    then obtain q where q: "q \<in> set rest" "lacksSoundFlag h1 q" by blast
    from q(2) obtain a where a: "q = Some a" "\<not> hasSoundFlag (h1 a)"
      by (cases q) (simp_all add: lacksSoundFlag_def)
    with doAddSoundFlag_keeps_flags [OF step] have "\<not> hasSoundFlag (h a)" by blast
    with a(1) have "lacksSoundFlag h q" by (simp add: lacksSoundFlag_def)
    with q(1) show ?thesis by auto
  qed
next
  assume "\<exists>q \<in> set (p # rest). lacksSoundFlag h q"
  then obtain q where q: "q = p \<or> q \<in> set rest" "lacksSoundFlag h q" by auto
  show "r1 \<or> (\<exists>q \<in> set rest. lacksSoundFlag h1 q)"
  proof (cases "lacksSoundFlag h p")
    case True
    then show ?thesis using doAddSoundFlag_added [OF step] by simp
  next
    case False
    with q have inrest: "q \<in> set rest" by auto
    from q(2) obtain a where a: "q = Some a" "\<not> hasSoundFlag (h a)"
      by (cases q) (simp_all add: lacksSoundFlag_def)
    have "\<not> hasSoundFlag (h1 a)"
    proof
      assume "hasSoundFlag (h1 a)"
      from doAddSoundFlag_new_flag [OF step this a(2)] have "lacksSoundFlag h p"
        by (auto simp add: lacksSoundFlag_def)
      with False show False by simp
    qed
    with a(1) have "lacksSoundFlag h1 q" by (simp add: lacksSoundFlag_def)
    with inrest show ?thesis by auto
  qed
qed



lemma linksShared_shape:
  assumes "\<And>y. isStaffText (h' y) = isStaffText (h y) \<and> links (h' y) = links (h y)"
  shows "linksShared h' b = linksShared h b"
  by (simp add: linksShared_iff assms)

lemma addSoundFlags_loop_result:
  assumes "addSoundFlags_loop xs added h = (r, h')"
    and "\<forall>b. Some b \<in> set xs \<longrightarrow> linksShared h b"
  shows "(\<forall>x. isStaffText (h' x) = isStaffText (h x) \<and> links (h' x) = links (h x))
       \<and> (\<forall>x. hasSoundFlag (h x) \<longrightarrow> hasSoundFlag (h' x))
       \<and> (\<forall>x. hasSoundFlag (h' x) \<longrightarrow> \<not> hasSoundFlag (h x) \<longrightarrow> flaggedWithLinks h' x)
       \<and> (\<forall>a. Some a \<in> set xs \<longrightarrow> hasSoundFlag (h' a))
       \<and> r = (added \<or> (\<exists>p \<in> set xs. lacksSoundFlag h p))"
  using assms
proof (induction xs arbitrary: added h)
  case Nil
  then show ?case by simp
next
  case (Cons p rest)
  obtain r1 h1 where step: "doAddSoundFlag p h = (r1, h1)" by (cases "doAddSoundFlag p h")
  with Cons.prems(1) have run: "addSoundFlags_loop rest (added \<or> r1) h1 = (r, h')" by simp
  have shape1: "\<And>x. isStaffText (h1 x) = isStaffText (h x) \<and> links (h1 x) = links (h x)"
    using doAddSoundFlag_shape [OF step] .
  have mono1: "\<And>x. hasSoundFlag (h x) \<Longrightarrow> hasSoundFlag (h1 x)"
    using doAddSoundFlag_keeps_flags [OF step] .
  have shared1: "\<forall>b. Some b \<in> set rest \<longrightarrow> linksShared h1 b"
    using Cons.prems(2) by (simp add: linksShared_shape [OF shape1])
  note IH = Cons.IH [OF run shared1]
  note shape2 = IH [THEN conjunct1, rule_format]
  note mono2 = IH [THEN conjunct2, THEN conjunct1, rule_format]
  note new2 = IH [THEN conjunct2, THEN conjunct2, THEN conjunct1, rule_format]
  note listed2 = IH [THEN conjunct2, THEN conjunct2, THEN conjunct2, THEN conjunct1, rule_format]
  note r = IH [THEN conjunct2, THEN conjunct2, THEN conjunct2, THEN conjunct2]
  have c1: "\<forall>x. isStaffText (h' x) = isStaffText (h x) \<and> links (h' x) = links (h x)"
    using shape1 shape2 by simp
  have c2: "\<forall>x. hasSoundFlag (h x) \<longrightarrow> hasSoundFlag (h' x)"
    by (intro allI impI mono2 mono1)
  have c3: "\<forall>x. hasSoundFlag (h' x) \<longrightarrow> \<not> hasSoundFlag (h x) \<longrightarrow> flaggedWithLinks h' x"
  proof (intro allI impI)
    fix x assume x: "hasSoundFlag (h' x)" "\<not> hasSoundFlag (h x)"
    show "flaggedWithLinks h' x"
    proof (cases "hasSoundFlag (h1 x)")
      case True
      have "\<forall>b. p = Some b \<longrightarrow> linksShared h b" using Cons.prems(2) by simp
      from doAddSoundFlag_new_flag_links [OF step True x(2) this]
      show ?thesis using shape2 mono2 by (rule flaggedWithLinks_mono)
    next
      case False
      with x(1) show ?thesis by (rule new2)
    qed
  qed
  have c4: "\<forall>a. Some a \<in> set (p # rest) \<longrightarrow> hasSoundFlag (h' a)"
  proof (intro allI impI)
    fix a assume "Some a \<in> set (p # rest)"
    then consider "p = Some a" | "Some a \<in> set rest" by auto
    then show "hasSoundFlag (h' a)"
    proof cases
      case 1
      with step have "doAddSoundFlag (Some a) h = (r1, h1)" by simp
      then have "hasSoundFlag (h1 a)" by (rule doAddSoundFlag_flags_listed)
      then show ?thesis by (rule mono2)
    next
      case 2
      then show ?thesis by (rule listed2)
    qed
  qed
  have "r = (added \<or> (r1 \<or> (\<exists>q \<in> set rest. lacksSoundFlag h1 q)))"
    using r by (simp only: disj_assoc)
  also have "(r1 \<or> (\<exists>q \<in> set rest. lacksSoundFlag h1 q))
               = (\<exists>q \<in> set (p # rest). lacksSoundFlag h q)"
    by (rule lacksSoundFlag_step [OF step])
  finally have c5: "r = (added \<or> (\<exists>q \<in> set (p # rest). lacksSoundFlag h q))" .
  show ?case by (intro conjI c1 c2 c3 c4 c5)
qed

text \<open>
  C8. For a staff text without a sound flag, \<open>doAddSoundFlag\<close> attaches a created flag to
  it and a linked clone of that flag to every other staff text among its links, and
  changes nothing else. With a score loaded and the links of the listed staff texts shared,
  \<open>addSoundFlags\<close> returns, and afterwards every listed staff text that lacked a sound flag
  has one, and so has every staff text among its links. Flags that were there stay, and
  neither the links nor the kinds of the objects change. The score-changed notification
  fires once if some listed staff text lacked a flag and not at all otherwise.
\<close>

theorem addSoundFlags_result:
  assumes sc: "score np = Some sc"
    and shared: "\<forall>b. Some b \<in> set staffTextList \<longrightarrow> linksShared (objects np) b"
  shows "(\<forall>a h. \<not> hasSoundFlag (h a) \<longrightarrow>
            doAddSoundFlag (Some a) h =
              (True, \<lambda>x. if x = a then (h a)\<lparr>soundFlag := Some (CreatedSoundFlag a)\<rparr>
                          else if (\<exists>ls. links (h a) = Some ls \<and> Some x \<in> set ls)
                                  \<and> isStaffText (h x)
                          then (h x)\<lparr>soundFlag := Some (LinkedClone (CreatedSoundFlag a))\<rparr>
                          else h x))
         \<and> (\<exists>np'. addSoundFlags staffTextList np = Some np'
           \<and> (\<forall>a. Some a \<in> set staffTextList \<longrightarrow> \<not> hasSoundFlag (objects np a)
                  \<longrightarrow> flaggedWithLinks (objects np') a)
           \<and> (\<forall>x. hasSoundFlag (objects np x) \<longrightarrow> hasSoundFlag (objects np' x))
           \<and> (\<forall>x. isStaffText (objects np' x) = isStaffText (objects np x)
                  \<and> links (objects np' x) = links (objects np x))
           \<and> m_notationChanged np' =
               (if \<exists>p \<in> set staffTextList. lacksSoundFlag (objects np) p
                then Suc (m_notationChanged np) else m_notationChanged np))"
proof -
  have c0: "\<forall>a h. \<not> hasSoundFlag (h a) \<longrightarrow>
            doAddSoundFlag (Some a) h =
              (True, \<lambda>x. if x = a then (h a)\<lparr>soundFlag := Some (CreatedSoundFlag a)\<rparr>
                          else if (\<exists>ls. links (h a) = Some ls \<and> Some x \<in> set ls)
                                  \<and> isStaffText (h x)
                          then (h x)\<lparr>soundFlag := Some (LinkedClone (CreatedSoundFlag a))\<rparr>
                          else h x)"
    by (intro allI impI) (simp only: doAddSoundFlag_obj if_False)
  obtain added h' where loop: "addSoundFlags_loop staffTextList False (objects np) = (added, h')"
    by (cases "addSoundFlags_loop staffTextList False (objects np)")
  note R = addSoundFlags_loop_result [OF loop shared]
  note shape = R [THEN conjunct1, rule_format]
  note mono = R [THEN conjunct2, THEN conjunct1, rule_format]
  note new = R [THEN conjunct2, THEN conjunct2, THEN conjunct1, rule_format]
  note listed = R [THEN conjunct2, THEN conjunct2, THEN conjunct2, THEN conjunct1, rule_format]
  have added: "added = (\<exists>p \<in> set staffTextList. lacksSoundFlag (objects np) p)"
    using R [THEN conjunct2, THEN conjunct2, THEN conjunct2, THEN conjunct2] by simp
  have "\<exists>np'. addSoundFlags staffTextList np = Some np' \<and> objects np' = h'
          \<and> m_notationChanged np' =
              (if added then Suc (m_notationChanged np) else m_notationChanged np)"
  proof (cases added)
    case True
    with added have ne: "staffTextList \<noteq> []" by auto
    have "score (np\<lparr>objects := h'\<rparr>) = Some sc" using sc by simp
    from notify_notationChanged_result [OF this] obtain np' where
      "notify_notationChanged (np\<lparr>objects := h'\<rparr>) = Some np'" "objects np' = h'"
      "m_notationChanged np' = Suc (m_notationChanged np)"
      by auto
    with True ne loop sc show ?thesis by (simp add: addSoundFlags_def)
  next
    case False
    show ?thesis
    proof (cases "staffTextList = []")
      case True
      with loop have "h' = objects np" by simp
      with True False show ?thesis by (simp add: addSoundFlags_def)
    next
      case ne: False
      with False loop show ?thesis by (simp add: addSoundFlags_def)
    qed
  qed
  then obtain np' where run: "addSoundFlags staffTextList np = Some np'"
    and obj: "objects np' = h'"
    and cnt: "m_notationChanged np' =
                (if added then Suc (m_notationChanged np) else m_notationChanged np)"
    by blast
  have c1: "\<forall>a. Some a \<in> set staffTextList \<longrightarrow> \<not> hasSoundFlag (objects np a)
                  \<longrightarrow> flaggedWithLinks (objects np') a"
  proof (intro allI impI)
    fix a assume a: "Some a \<in> set staffTextList" "\<not> hasSoundFlag (objects np a)"
    from a(1) have "hasSoundFlag (h' a)" by (rule listed)
    from this a(2) have "flaggedWithLinks h' a" by (rule new)
    then show "flaggedWithLinks (objects np') a" by (simp add: obj)
  qed
  have c2: "\<forall>x. hasSoundFlag (objects np x) \<longrightarrow> hasSoundFlag (objects np' x)"
    using mono by (simp add: obj)
  have c3: "m_notationChanged np' =
               (if \<exists>p \<in> set staffTextList. lacksSoundFlag (objects np) p
                then Suc (m_notationChanged np) else m_notationChanged np)"
    using added cnt by simp
  have c4: "\<forall>x. isStaffText (objects np' x) = isStaffText (objects np x)
                  \<and> links (objects np' x) = links (objects np x)"
    using shape by (simp add: obj)
  show ?thesis by (intro exI [of _ np'] conjI c0 run c1 c2 c4 c3)
qed

theorem addSoundFlags_result_witness:
  "score ex_np = Some ex_score
   \<and> linksShared (objects ex_np) 1
   \<and> Some 1 \<in> set [Some (1::nat)] \<and> \<not> hasSoundFlag (objects ex_np 1)
   \<and> links (objects ex_np 1) = Some [Some 1, Some 2]
   \<and> (\<exists>np'. addSoundFlags [Some 1] ex_np = Some np'
         \<and> hasSoundFlag (objects np' 1) \<and> hasSoundFlag (objects np' 2)
         \<and> m_notationChanged np' = Suc (m_notationChanged ex_np))"
proof -
  have a: "score ex_np = Some ex_score" by (simp add: ex_np_def)
  have b1: "linksShared (objects ex_np) 1"
    by (simp add: ex_np_def ex_objects_def linksShared_def)
  then have b: "\<forall>b. Some b \<in> set [Some 1] \<longrightarrow> linksShared (objects ex_np) b"
    by simp
  have c: "\<not> hasSoundFlag (objects ex_np 1)"
    by (simp add: ex_np_def ex_objects_def hasSoundFlag_def)
  have d: "links (objects ex_np 1) = Some [Some 1, Some 2]"
    by (simp add: ex_np_def ex_objects_def)
  have e: "\<exists>p \<in> set [Some 1]. lacksSoundFlag (objects ex_np) p"
    using c by (simp add: lacksSoundFlag_def)
  from addSoundFlags_result [OF a b, THEN conjunct2] obtain np' where
    run: "addSoundFlags [Some 1] ex_np = Some np'"
    and fl: "\<forall>a. Some a \<in> set [Some 1] \<longrightarrow> \<not> hasSoundFlag (objects ex_np a)
                  \<longrightarrow> flaggedWithLinks (objects np') a"
    and sh: "\<forall>x. isStaffText (objects np' x) = isStaffText (objects ex_np x)
                  \<and> links (objects np' x) = links (objects ex_np x)"
    and cnt: "m_notationChanged np' =
               (if \<exists>p \<in> set [Some 1]. lacksSoundFlag (objects ex_np) p
                then Suc (m_notationChanged ex_np) else m_notationChanged ex_np)"
    by blast
  from fl c have f: "flaggedWithLinks (objects np') 1" by simp
  have shape: "links (objects np' 1) = Some [Some 1, Some 2] \<and> isStaffText (objects np' 2)"
    using sh d by (simp add: ex_np_def ex_objects_def)
  from f shape have "hasSoundFlag (objects np' 1)" "hasSoundFlag (objects np' 2)"
    by (simp_all add: flaggedWithLinks_def)
  with run cnt e a b1 c d show ?thesis by simp
qed


subsection \<open>Removing\<close>

lemma collectStaffText_score:
  assumes "collectStaffText trackIdSet withSoundFlags np \<noteq> []"
  shows "\<exists>sc. score np = Some sc"
  using assms by (cases "score np") (simp_all add: collectStaffText_def split: if_splits)

lemma remove_no_new_flag:
  "hasSoundFlag (remove a h x) \<Longrightarrow> hasSoundFlag (h x)"
  by (simp add: remove_def hasSoundFlag_def split: if_splits)

lemma removeSoundFlags_links_no_new_flag:
  "hasSoundFlag (removeSoundFlags_links s ls h x) \<Longrightarrow> hasSoundFlag (h x)"
proof (induction ls arbitrary: h)
  case Nil
  then show ?case by simp
next
  case (Cons obj objs)
  let ?h1 = "case obj of None \<Rightarrow> h
             | Some a \<Rightarrow> if isStaffText (h a) \<and> a \<noteq> s
                         then (if \<not> hasSoundFlag (h a) then h else remove a h) else h"
  from Cons.prems have "hasSoundFlag (removeSoundFlags_links s objs ?h1 x)" by simp
  then have "hasSoundFlag (?h1 x)" by (rule Cons.IH)
  then show ?case
    by (cases obj) (auto dest: remove_no_new_flag split: if_splits)
qed

lemma removeSoundFlags_step_no_new_flag:
  assumes "hasSoundFlag
             ((if \<not> hasSoundFlag (h b) then h
               else let h1 = remove b h
                    in (case links (h1 b) of None \<Rightarrow> h1
                        | Some ls \<Rightarrow> removeSoundFlags_links b ls h1)) x)"
  shows "hasSoundFlag (h x) \<and> (hasSoundFlag (h b) \<longrightarrow> x \<noteq> b)"
proof (cases "hasSoundFlag (h b)")
  case False
  with assms show ?thesis by simp
next
  case True
  let ?h1 = "remove b h"
  have none: "\<not> hasSoundFlag (?h1 b)" by (simp add: remove_def hasSoundFlag_def)
  from True assms have "hasSoundFlag (?h1 x)"
    by (cases "links (?h1 b)") (auto simp add: Let_def dest: removeSoundFlags_links_no_new_flag)
  with none have "x \<noteq> b" "hasSoundFlag (h x)" by (auto dest: remove_no_new_flag)
  then show ?thesis by simp
qed

lemma removeSoundFlags_loop_no_new_flag:
  "hasSoundFlag (removeSoundFlags_loop xs h x) \<Longrightarrow> hasSoundFlag (h x)"
proof (induction xs arbitrary: h)
  case Nil
  then show ?case by simp
next
  case (Cons b rest)
  from Cons.prems have "hasSoundFlag
             ((if \<not> hasSoundFlag (h b) then h
               else let h1 = remove b h
                    in (case links (h1 b) of None \<Rightarrow> h1
                        | Some ls \<Rightarrow> removeSoundFlags_links b ls h1)) x)"
    by (simp only: removeSoundFlags_loop.simps) (rule Cons.IH)
  then show ?case by (rule removeSoundFlags_step_no_new_flag [THEN conjunct1])
qed

lemma removeSoundFlags_loop_clears:
  "a \<in> set xs \<Longrightarrow> \<not> hasSoundFlag (removeSoundFlags_loop xs h a)"
proof (induction xs arbitrary: h)
  case Nil
  then show ?case by simp
next
  case (Cons b rest)
  show ?case
  proof (cases "a = b")
    case True
    show ?thesis
    proof
      assume "hasSoundFlag (removeSoundFlags_loop (b # rest) h a)"
      then have "hasSoundFlag
             ((if \<not> hasSoundFlag (h b) then h
               else let h1 = remove b h
                    in (case links (h1 b) of None \<Rightarrow> h1
                        | Some ls \<Rightarrow> removeSoundFlags_links b ls h1)) a)"
        by (simp only: removeSoundFlags_loop.simps) (rule removeSoundFlags_loop_no_new_flag)
      then have "hasSoundFlag (h a) \<and> (hasSoundFlag (h b) \<longrightarrow> a \<noteq> b)"
        by (rule removeSoundFlags_step_no_new_flag)
      with True show False by simp
    qed
  next
    case False
    with Cons.prems have "a \<in> set rest" by simp
    then show ?thesis by (simp add: Cons.IH)
  qed
qed

lemma collectStaffText_annotations_flagged:
  "a \<in> set (collectStaffText_annotations trackIdSet True h anns) \<Longrightarrow> hasSoundFlag (h a)"
  by (induction trackIdSet True h anns rule: collectStaffText_annotations.induct)
     (auto split: if_splits)

lemma collectStaffText_segments_flagged:
  "a \<in> set (collectStaffText_segments trackIdSet True h segs) \<Longrightarrow> hasSoundFlag (h a)"
  by (induction segs) (auto dest: collectStaffText_annotations_flagged)

lemma collectStaffText_flagged:
  "a \<in> set (collectStaffText trackIdSet True np) \<Longrightarrow> hasSoundFlag (objects np a)"
  by (auto simp add: collectStaffText_def dest: collectStaffText_segments_flagged
      split: if_splits option.splits)

lemma ex_collect_flagged:
  "collectStaffText {(0, ''violin'')} True ex_np_flagged = [1, 2]"
  by (simp add: collectStaffText_def ex_np_flagged_def ex_np_def ex_score_def ex_objects_def
      add_def hasSoundFlag_def)

text \<open>
  C2, as the code has it. \<open>removeSoundFlags\<close> returns for every set of tracks. If it
  collects no staff text with a sound flag on these tracks it leaves the state as it is: no
  reload, no notification. Otherwise it reloads the playback data once and fires the
  score-changed notification once, and every collected staff text, which had a sound flag
  before, has none afterwards.
\<close>

theorem removeSoundFlags_result:
  "\<exists>np'. removeSoundFlags trackIdSet np = Some np'
     \<and> (if collectStaffText trackIdSet True np = []
         then np' = np
         else reloads (m_playbackModel np') = Suc (reloads (m_playbackModel np))
              \<and> m_notationChanged np' = Suc (m_notationChanged np)
              \<and> (\<forall>a \<in> set (collectStaffText trackIdSet True np).
                    hasSoundFlag (objects np a) \<and> \<not> hasSoundFlag (objects np' a)))"
proof (cases "collectStaffText trackIdSet True np = []")
  case True
  then show ?thesis by (simp add: removeSoundFlags_def)
next
  case False
  let ?list = "collectStaffText trackIdSet True np"
  let ?np1 = "np\<lparr>objects := removeSoundFlags_loop ?list (objects np),
                  m_playbackModel := reload (m_playbackModel np)\<rparr>"
  from collectStaffText_score [OF False] obtain sc where sc: "score np = Some sc" by blast
  then have "score ?np1 = Some sc" by simp
  from notify_notationChanged_result [OF this] obtain np' where
    n: "notify_notationChanged ?np1 = Some np'"
    and obj: "objects np' = removeSoundFlags_loop ?list (objects np)"
    and pm: "m_playbackModel np' = reload (m_playbackModel np)"
    and cnt: "m_notationChanged np' = Suc (m_notationChanged np)"
    by auto
  from False sc n have run: "removeSoundFlags trackIdSet np = Some np'"
    by (simp add: removeSoundFlags_def Let_def)
  have flags: "\<forall>a \<in> set ?list. hasSoundFlag (objects np a) \<and> \<not> hasSoundFlag (objects np' a)"
    by (simp add: obj collectStaffText_flagged removeSoundFlags_loop_clears)
  have counts: "reloads (m_playbackModel np') = Suc (reloads (m_playbackModel np))"
    by (simp add: pm reload_def)
  from False run flags counts cnt show ?thesis by simp
qed

theorem removeSoundFlags_result_witness:
  "collectStaffText {(0, ''violin'')} True ex_np_flagged = [1, 2]
   \<and> (\<exists>np'. removeSoundFlags {(0, ''violin'')} ex_np_flagged = Some np'
         \<and> reloads (m_playbackModel np') = Suc (reloads (m_playbackModel ex_np_flagged))
         \<and> m_notationChanged np' = Suc (m_notationChanged ex_np_flagged)
         \<and> hasSoundFlag (objects ex_np_flagged 1) \<and> \<not> hasSoundFlag (objects np' 1)
         \<and> hasSoundFlag (objects ex_np_flagged 2) \<and> \<not> hasSoundFlag (objects np' 2))"
proof -
  have a: "collectStaffText {(0, ''violin'')} True ex_np_flagged = [1, 2]"
    by (rule ex_collect_flagged)
  from removeSoundFlags_result [of "{(0, ''violin'')}" ex_np_flagged] a show ?thesis
    by auto
qed

text \<open>
  On the example state, where no staff text has a sound flag, \<open>removeSoundFlags\<close> removes
  nothing and leaves the state as it is, for a set of tracks as for the empty set: the
  playback data are not reloaded and the score-changed notification does not fire.
\<close>

theorem removeSoundFlags_nothing_collected_counterexample:
  "collectStaffText {(0, ''violin'')} True ex_np = []
   \<and> removeSoundFlags {(0, ''violin'')} ex_np = Some ex_np
   \<and> removeSoundFlags {} ex_np = Some ex_np"
proof -
  have a: "collectStaffText {(0, ''violin'')} True ex_np = []"
    by (simp add: collectStaffText_def ex_np_def ex_score_def ex_objects_def hasSoundFlag_def)
  have b: "collectStaffText {} True ex_np = []"
    by (simp add: collectStaffText_def)
  from a b show ?thesis by (simp add: removeSoundFlags_def)
qed

end
